theory Spec2Isabelle
  imports
    Main
    "HOL-Library.Char_ord"
    "HOL-Library.List_Lexorder"
    "HOL-Library.Product_Lexorder"
    "HOL-Library.AList"
    "HOL-Library.Multiset"
begin

section \<open>Python values used by the examples\<close>

text \<open>
  Python integers are unbounded and are modelled by \<^typ>\<open>int\<close>; Python strings are
  modelled by \<^typ>\<open>string\<close>.  Every exception a modelled function can raise is a value
  of \<open>py_error\<close>, and a function that can raise returns \<open>py_error + 'a\<close>.
\<close>

datatype py_error =
    ValueError
  | KeyError string
  | IndexError
  | LookupError string
  | AttributeError
  | NameError

text \<open>\<open>str(n)\<close> for an integer: the decimal digits, with a minus sign when negative.\<close>

definition digit_char :: "nat \<Rightarrow> char" where
  "digit_char d = ''0123456789'' ! d"

fun str_nat :: "nat \<Rightarrow> string" where
  "str_nat n = (if n < 10 then [digit_char n] else str_nat (n div 10) @ [digit_char (n mod 10)])"

declare str_nat.simps [simp del]

definition str :: "int \<Rightarrow> string" where
  "str n = (if n < 0 then CHR ''-'' # str_nat (nat (- n)) else str_nat (nat n))"

text \<open>\<open>range(a, b)\<close>: the integers from \<open>a\<close> up to, not including, \<open>b\<close>.\<close>

definition range :: "int \<Rightarrow> int \<Rightarrow> int list" where
  "range a b = [a..b - 1]"

text \<open>\<open>list(s)\<close> for a string: its one-character strings.\<close>

definition list_of_str :: "string \<Rightarrow> string list" where
  "list_of_str s = map (\<lambda>c. [c]) s"

text \<open>
  \<open>s.split()\<close> with no argument: the maximal runs of non-whitespace characters.  A
  character is a code point below 256; those are the whitespace characters among them.
\<close>

definition isspace :: "char \<Rightarrow> bool" where
  "isspace c = (c \<in> set [CHR '' '', CHR 0x09, CHR 0x0A, CHR 0x0B, CHR 0x0C, CHR 0x0D,
                           CHR 0x1C, CHR 0x1D, CHR 0x1E, CHR 0x1F, CHR 0x85, CHR 0xA0])"

fun split_from :: "string \<Rightarrow> string \<Rightarrow> string list" where
  "split_from cur [] = (if cur = [] then [] else [cur])"
| "split_from cur (c # cs) =
     (if isspace c then (if cur = [] then [] else [cur]) @ split_from [] cs
      else split_from (cur @ [c]) cs)"

definition split :: "string \<Rightarrow> string list" where
  "split s = split_from [] s"

text \<open>\<open>xs.index(x)\<close>: the first position of \<open>x\<close>, or \<open>ValueError\<close>.\<close>

fun list_index :: "'a list \<Rightarrow> 'a \<Rightarrow> py_error + int" where
  "list_index [] x = Inl ValueError"
| "list_index (y # ys) x =
     (if y = x then Inr 0
      else (case list_index ys x of Inl e \<Rightarrow> Inl e | Inr i \<Rightarrow> Inr (i + 1)))"

text \<open>\<open>d[k]\<close> on a dictionary kept as an association list: the value, or \<open>KeyError\<close>.\<close>

definition dict_getitem :: "(string \<times> 'v) list \<Rightarrow> string \<Rightarrow> py_error + 'v" where
  "dict_getitem d k = (case map_of d k of None \<Rightarrow> Inl (KeyError k) | Some v \<Rightarrow> Inr v)"

text \<open>
  \<open>xs[i]\<close> on a list with an integer index: negative indices count from the end, and an
  index out of range raises \<open>IndexError\<close>.
\<close>

definition list_getitem :: "'a list \<Rightarrow> int \<Rightarrow> py_error + 'a" where
  "list_getitem xs position =
     (if 0 \<le> position
      then (if position < int (length xs) then Inr (xs ! nat position) else Inl IndexError)
      else (if - position \<le> int (length xs)
            then Inr (xs ! nat (int (length xs) + position))
            else Inl IndexError))"

text \<open>
  \<open>sorted(xs, key=f)\<close>: the key of every element is computed first, in order (the first
  key that raises ends the call), then the elements are sorted by key, stably.
\<close>

fun map_keys :: "('a \<Rightarrow> py_error + 'k) \<Rightarrow> 'a list \<Rightarrow> py_error + 'k list" where
  "map_keys f [] = Inr []"
| "map_keys f (x # xs) =
     (case f x of
        Inl e \<Rightarrow> Inl e
      | Inr k \<Rightarrow> (case map_keys f xs of Inl e \<Rightarrow> Inl e | Inr ks \<Rightarrow> Inr (k # ks)))"

definition sorted_by_key :: "('a \<Rightarrow> py_error + int) \<Rightarrow> 'a list \<Rightarrow> py_error + 'a list" where
  "sorted_by_key f xs =
     (case map_keys f xs of
        Inl e \<Rightarrow> Inl e
      | Inr ks \<Rightarrow> Inr (map snd (sort_key fst (zip ks xs))))"


section \<open>french\_deck.py\<close>

text \<open>\<open>Card = NamedTuple('Card', [('rank', str), ('suit', str)])\<close>\<close>

datatype Card = Card (rank: string) (suit: string)

text \<open>The class attributes of \<open>FrenchDeck\<close>.\<close>

definition ranks :: "string list" where
  "ranks = [str n. n \<leftarrow> range 2 11] @ list_of_str ''JQKA''"

definition suits :: "string list" where
  "suits = split ''spades diamonds clubs hearts''"

definition suit_values :: "(string \<times> int) list" where
  "suit_values = [(''spades'', 3), (''hearts'', 2), (''diamonds'', 1), (''clubs'', 0)]"

text \<open>An instance holds one attribute, the list \<open>_cards\<close>.\<close>

record FrenchDeck =
  cards :: "Card list"

definition FrenchDeck_init :: FrenchDeck where
  "FrenchDeck_init = \<lparr>cards = [Card r s. s \<leftarrow> suits, r \<leftarrow> ranks]\<rparr>"

definition FrenchDeck_len :: "FrenchDeck \<Rightarrow> int" where
  "FrenchDeck_len d = int (length (cards d))"

definition FrenchDeck_getitem :: "FrenchDeck \<Rightarrow> int \<Rightarrow> py_error + Card" where
  "FrenchDeck_getitem d position = list_getitem (cards d) position"

definition sorting :: "Card \<Rightarrow> py_error + int" where
  "sorting a_card =
     (case list_index ranks (rank a_card) of
        Inl e \<Rightarrow> Inl e
      | Inr rank_value \<Rightarrow>
          (case dict_getitem suit_values (suit a_card) of
             Inl e \<Rightarrow> Inl e
           | Inr v \<Rightarrow> Inr (rank_value * int (length suit_values) + v)))"

text \<open>
  The class defines no \<open>__iter__\<close>, so iterating a deck calls \<open>__getitem__\<close> with
  0, 1, 2, ... until it raises \<open>IndexError\<close>.
\<close>

function iter_from :: "FrenchDeck \<Rightarrow> nat \<Rightarrow> Card list" where
  "iter_from d i =
     (case FrenchDeck_getitem d (int i) of
        Inl e \<Rightarrow> []
      | Inr c \<Rightarrow> c # iter_from d (Suc i))"
  by pat_completeness auto
termination
  by (relation "measure (\<lambda>(d, i). length (cards d) - i)")
     (auto simp: FrenchDeck_getitem_def list_getitem_def Let_def split: if_splits)

declare iter_from.simps [simp del]

definition FrenchDeck_sorted :: "FrenchDeck \<Rightarrow> py_error + Card list" where
  "FrenchDeck_sorted d = sorted_by_key sorting (iter_from d 0)"


section \<open>vector.py\<close>

datatype Vector = Vector (Vector_x: int) (Vector_y: int)

text \<open>\<open>a or b\<close> on integers: \<open>a\<close> when it is truthy (non-zero), else \<open>b\<close>.\<close>

definition py_or :: "int \<Rightarrow> int \<Rightarrow> int" where
  "py_or a b = (if a \<noteq> 0 then a else b)"

definition py_bool :: "int \<Rightarrow> bool" where
  "py_bool a = (a \<noteq> 0)"

definition Vector_bool :: "Vector \<Rightarrow> bool" where
  "Vector_bool self = py_bool (py_or (Vector_x self) (Vector_y self))"

definition Vector_add :: "Vector \<Rightarrow> Vector \<Rightarrow> Vector" where
  "Vector_add self other =
     (let x = Vector_x self + Vector_x other;
          y = Vector_y self + Vector_y other
      in Vector x y)"

definition Vector_mul :: "Vector \<Rightarrow> int \<Rightarrow> Vector" where
  "Vector_mul self scalar = Vector (Vector_x self * scalar) (Vector_y self * scalar)"


section \<open>test\_first\_class\_functions.py\<close>

subsection \<open>factorial\<close>

text \<open>
  \<open>return 1 if n < 2 else n * factorial(n - 1)\<close>.  The recursion ends on every integer:
  the argument decreases towards 1.
\<close>

function factorial :: "int \<Rightarrow> int" where
  "factorial n = (if n < 2 then 1 else n * factorial (n - 1))"
  by pat_completeness auto
termination
  by (relation "measure nat") auto

declare factorial.simps [simp del]

text \<open>
  The same function, run with room for at most \<open>depth\<close> nested calls: \<open>None\<close> when
  the call would need to nest deeper than that.
\<close>

fun factorial_within :: "nat \<Rightarrow> int \<Rightarrow> int option" where
  "factorial_within 0 n = None"
| "factorial_within (Suc depth) n =
     (if n < 2 then Some 1
      else (case factorial_within depth (n - 1) of None \<Rightarrow> None | Some r \<Rightarrow> Some (n * r)))"

subsection \<open>BingoCage\<close>

text \<open>
  \<open>random.shuffle(x)\<close> walks \<open>i\<close> from \<open>len(x) - 1\<close> down to 1 and swaps \<open>x[i]\<close> with
  \<open>x[j]\<close>, where \<open>j = randbelow(i + 1)\<close> lies in \<open>0..i\<close>.  The random source is a
  parameter \<open>rnd\<close>: the draw for the bound \<open>n\<close> is \<open>rnd n mod n\<close>.
\<close>

definition randbelow :: "(nat \<Rightarrow> nat) \<Rightarrow> nat \<Rightarrow> nat" where
  "randbelow rnd n = rnd n mod n"

definition swap :: "'a list \<Rightarrow> nat \<Rightarrow> nat \<Rightarrow> 'a list" where
  "swap x i j = x[i := x ! j, j := x ! i]"

fun shuffle_from :: "(nat \<Rightarrow> nat) \<Rightarrow> nat \<Rightarrow> 'a list \<Rightarrow> 'a list" where
  "shuffle_from rnd 0 x = x"
| "shuffle_from rnd (Suc i) x = shuffle_from rnd i (swap x (Suc i) (randbelow rnd (Suc i + 1)))"

definition shuffle :: "(nat \<Rightarrow> nat) \<Rightarrow> 'a list \<Rightarrow> 'a list" where
  "shuffle rnd x = shuffle_from rnd (length x - 1) x"

text \<open>\<open>xs.pop()\<close>: removes and returns the last element, or raises \<open>IndexError\<close>.\<close>

definition list_pop :: "'a list \<Rightarrow> py_error + ('a \<times> 'a list)" where
  "list_pop xs = (if xs = [] then Inl IndexError else Inr (last xs, butlast xs))"

text \<open>An instance holds one attribute, the list \<open>_items\<close>.\<close>

record BingoCage =
  items :: "int list"

definition BingoCage_init :: "(nat \<Rightarrow> nat) \<Rightarrow> int list \<Rightarrow> BingoCage" where
  "BingoCage_init rnd its = \<lparr>items = shuffle rnd its\<rparr>"

text \<open>
  \<open>pick\<close> returns the picked item together with the cage as the call leaves it.  Only
  \<open>IndexError\<close> is caught; it is replaced by \<open>LookupError\<close>.
\<close>

definition pick :: "BingoCage \<Rightarrow> py_error + (int \<times> BingoCage)" where
  "pick self =
     (case list_pop (items self) of
        Inr (item, rest) \<Rightarrow> Inr (item, self\<lparr>items := rest\<rparr>)
      | Inl IndexError \<Rightarrow> Inl (LookupError ''pick from empty BingoCage'')
      | Inl e \<Rightarrow> Inl e)"

definition BingoCage_call :: "BingoCage \<Rightarrow> py_error + (int \<times> BingoCage)" where
  "BingoCage_call self = pick self"

text \<open>
  The cages a program can hold after \<open>BingoCage(its)\<close>: the new cage, and every cage a
  successful \<open>pick\<close> leaves behind.
\<close>

inductive cage_of :: "int list \<Rightarrow> BingoCage \<Rightarrow> bool" where
  constructed: "cage_of its (BingoCage_init rnd its)"
| picked: "cage_of its c \<Longrightarrow> pick c = Inr (item, c') \<Longrightarrow> cage_of its c'"


subsection \<open>tag\<close>

text \<open>\<open>sep.join(strs)\<close>\<close>

fun join :: "string \<Rightarrow> string list \<Rightarrow> string" where
  "join sep [] = []"
| "join sep [s] = s"
| "join sep (s # t # ts) = s @ sep @ join sep (t # ts)"

text \<open>\<open>' %s="%s"' % (k, v)\<close>; the double quote is the character 0x22.\<close>

definition format_attr :: "string \<times> string \<Rightarrow> string" where
  "format_attr kv = (case kv of (k, v) \<Rightarrow> '' '' @ k @ ''='' @ [CHR 0x22] @ v @ [CHR 0x22])"

text \<open>\<open>'<%s%s />' % (name, attr_str)\<close> and \<open>'<%s%s>%s</%s>' % (name, attr_str, c, name)\<close>\<close>

definition format_empty :: "string \<Rightarrow> string \<Rightarrow> string" where
  "format_empty name attr_str = ''<'' @ name @ attr_str @ '' />''"

definition format_element :: "string \<Rightarrow> string \<Rightarrow> string \<Rightarrow> string" where
  "format_element name attr_str c = ''<'' @ name @ attr_str @ ''>'' @ c @ ''</'' @ name @ ''>''"

text \<open>
  \<open>tag(name, *content, cls=None, **attrs)\<close>.  The keyword arguments \<open>attrs\<close> are a
  dictionary, kept as an association list in insertion order; \<open>attrs['class'] = cls\<close>
  replaces the value of an existing key in place and appends a new key.  \<open>sorted\<close> orders
  the items as pairs.  A tuple indexed by a \<open>bool\<close> yields its second component for
  \<open>True\<close>; both components are computed, and neither can raise.
\<close>

definition tag :: "string \<Rightarrow> string list \<Rightarrow> string option \<Rightarrow> (string \<times> string) list \<Rightarrow> string" where
  "tag name content cls attrs0 =
     (let attrs = (case cls of None \<Rightarrow> attrs0 | Some c \<Rightarrow> AList.update ''class'' c attrs0);
          attr_str = (if attrs \<noteq> [] then concat (map format_attr (sort attrs)) else [])
      in if content \<noteq> []
         then join [CHR 0x0A] (map (\<lambda>c. format_element name attr_str c) content)
         else format_empty name attr_str)"

text \<open>
  The specification of \<open>tag\<close> in its own words, over the dictionary as a finite map: the
  attribute text lists every attribute as \<open> key="value"\<close> in ascending order of the keys,
  where \<open>cls\<close>, when given, is the attribute \<open>class\<close>.
\<close>

definition spec_attributes :: "string option \<Rightarrow> (string \<rightharpoonup> string) \<Rightarrow> (string \<rightharpoonup> string)" where
  "spec_attributes cls m = (case cls of None \<Rightarrow> m | Some c \<Rightarrow> m(''class'' \<mapsto> c))"

definition spec_attr_text :: "(string \<rightharpoonup> string) \<Rightarrow> string" where
  "spec_attr_text m =
     concat (map (\<lambda>k. '' '' @ k @ ''='' @ [CHR 0x22] @ the (m k) @ [CHR 0x22])
               (sorted_list_of_set (dom m)))"

definition tag_spec :: "string \<Rightarrow> string list \<Rightarrow> string option \<Rightarrow> (string \<rightharpoonup> string) \<Rightarrow> string" where
  "tag_spec name content cls m =
     (let ATTRS = spec_attr_text (spec_attributes cls m)
      in if content = [] then ''<'' @ name @ ATTRS @ '' />''
         else join [CHR 0x0A] (map (\<lambda>c. ''<'' @ name @ ATTRS @ ''>'' @ c @ ''</'' @ name @ ''>'') content))"


section \<open>Objects and their identity\<close>


















section \<open>Properties\<close>

subsection \<open>Sorting by a key\<close>

lemma map_keys_Inr:
  "map_keys f xs = Inr ks \<Longrightarrow> map f xs = map Inr ks"
  by (induction xs arbitrary: ks) (auto split: sum.splits)

lemma map_keys_total:
  "\<forall>x \<in> set xs. \<exists>k. f x = Inr k \<Longrightarrow> \<exists>ks. map_keys f xs = Inr ks"
  by (induction xs) (auto split: sum.splits)

lemma zip_keys:
  assumes "map f xs = map Inr ks" and "(k, x) \<in> set (zip ks xs)"
  shows "f x = Inr k"
proof -
  from assms(2) obtain i where i: "i < length ks" "i < length xs" "ks ! i = k" "xs ! i = x"
    by (auto simp: set_zip)
  from assms(1) i(1,2) have "map f xs ! i = map Inr ks ! i"
    by simp
  with i show ?thesis
    by simp
qed

lemma sorted_by_key_mset:
  assumes "sorted_by_key f xs = Inr ys"
  shows "mset ys = mset xs"
proof -
  from assms obtain ks where ks: "map_keys f xs = Inr ks"
    and ys: "ys = map snd (sort_key fst (zip ks xs))"
    by (auto simp: sorted_by_key_def split: sum.splits)
  from map_keys_Inr [OF ks] have len: "length ks = length xs"
    by (metis length_map)
  have "mset ys = mset (map snd (zip ks xs))"
    by (simp add: ys)
  also have "\<dots> = mset xs"
    using len by simp
  finally show ?thesis .
qed

lemma sorted_by_key_keys:
  assumes "sorted_by_key f xs = Inr ys"
  shows "\<exists>ks. map f ys = map Inr ks \<and> sorted ks"
proof -
  from assms obtain ks where ks: "map_keys f xs = Inr ks"
    and ys: "ys = map snd (sort_key fst (zip ks xs))"
    by (auto simp: sorted_by_key_def split: sum.splits)
  let ?zs = "sort_key fst (zip ks xs)"
  have "f (snd p) = Inr (fst p)" if "p \<in> set ?zs" for p
    using that zip_keys [OF map_keys_Inr [OF ks], of "fst p" "snd p"] by simp
  then have "map f ys = map Inr (map fst ?zs)"
    by (simp add: ys)
  moreover have "sorted (map fst ?zs)"
    by (rule sorted_sort_key)
  ultimately show ?thesis
    by blast
qed

subsection \<open>The deck\<close>

lemma ranks_eq:
  "ranks = [''2'', ''3'', ''4'', ''5'', ''6''] @ [''7'', ''8'', ''9'', ''10''] @
             [''J'', ''Q'', ''K'', ''A'']"
  by (simp add: ranks_def range_def str_def str_nat.simps digit_char_def list_of_str_def
      upto.simps)

lemma suits_eq:
  "suits = [''spades'', ''diamonds'', ''clubs'', ''hearts'']"
  by (simp add: suits_def split_def isspace_def)

lemma iter_from_drop:
  "iter_from d i = drop i (cards d)"
proof (induction d i rule: iter_from.induct)
  case (1 d i)
  show ?case
  proof (cases "i < length (cards d)")
    case True
    then have "FrenchDeck_getitem d (int i) = Inr (cards d ! i)"
      by (simp add: FrenchDeck_getitem_def list_getitem_def)
    with 1 True show ?thesis
      by (subst iter_from.simps) (simp add: Cons_nth_drop_Suc)
  next
    case False
    then have "FrenchDeck_getitem d (int i) = Inl IndexError"
      by (simp add: FrenchDeck_getitem_def list_getitem_def)
    with False show ?thesis
      by (subst iter_from.simps) simp
  qed
qed

lemma FrenchDeck_sorted_eq:
  "FrenchDeck_sorted d = sorted_by_key sorting (cards d)"
  by (simp add: FrenchDeck_sorted_def iter_from_drop)

lemma fresh_deck_keys:
  "map_keys sorting (cards FrenchDeck_init) =
     Inr [3, 7, 11, 15, 19, 23, 27, 31, 35, 39, 43, 47, 51,
          1, 5, 9, 13, 17, 21, 25, 29, 33, 37, 41, 45, 49,
          0, 4, 8, 12, 16, 20, 24, 28, 32, 36, 40, 44, 48,
          2, 6, 10, 14, 18, 22, 26, 30, 34, 38, 42, 46, 50]"
  by code_simp

lemma fresh_deck_sorted_shape:
  "(case FrenchDeck_sorted FrenchDeck_init of
      Inl e \<Rightarrow> False
    | Inr ys \<Rightarrow>
        length ys = 52 \<and> map sorting ys = map Inr [0..51] \<and>
        hd ys = Card ''2'' ''clubs'' \<and> last ys = Card ''A'' ''spades'')"
  unfolding FrenchDeck_sorted_eq sorted_by_key_def fresh_deck_keys
  by code_simp

text \<open>
  C3.  A freshly constructed deck holds exactly 52 cards: every one of the 13 ranks with
  every one of the 4 suits, without duplicates, suit by suit in the order spades,
  diamonds, clubs, hearts, and within each suit in the order of the ranks '2' to 'A'.
\<close>

theorem FrenchDeck_init_cards:
  "FrenchDeck_len FrenchDeck_init = 52
   \<and> length ranks = 13 \<and> distinct ranks \<and> length suits = 4 \<and> distinct suits
   \<and> distinct (cards FrenchDeck_init)
   \<and> set (cards FrenchDeck_init) = (\<lambda>(r, s). Card r s) ` (set ranks \<times> set suits)
   \<and> cards FrenchDeck_init = concat (map (\<lambda>s. map (\<lambda>r. Card r s) ranks) suits)
   \<and> suits = [''spades'', ''diamonds'', ''clubs'', ''hearts'']
   \<and> ranks = [''2'', ''3'', ''4'', ''5'', ''6''] @ [''7'', ''8'', ''9'', ''10''] @
             [''J'', ''Q'', ''K'', ''A'']"
proof -
  have len: "FrenchDeck_len FrenchDeck_init = 52"
    by (simp add: FrenchDeck_len_def FrenchDeck_init_def ranks_eq suits_eq)
  have dr: "length ranks = 13 \<and> distinct ranks"
    by (simp add: ranks_eq)
  have ds: "length suits = 4 \<and> distinct suits"
    by (simp add: suits_eq)
  have dc: "distinct (cards FrenchDeck_init)"
    unfolding FrenchDeck_init_def by (simp add: ranks_eq suits_eq)
  have st: "set (cards FrenchDeck_init) = (\<lambda>(r, s). Card r s) ` (set ranks \<times> set suits)"
    unfolding FrenchDeck_init_def by auto
  have lay: "cards FrenchDeck_init = concat (map (\<lambda>s. map (\<lambda>r. Card r s) ranks) suits)"
    by (simp add: FrenchDeck_init_def)
  from len dr ds dc st lay suits_eq ranks_eq show ?thesis
    by blast
qed

text \<open>
  C1.  The comparator \<open>sorting\<close> maps a card to the index of its rank in \<open>ranks\<close> times 4
  (the number of entries of \<open>suit_values\<close>) plus the value of its suit (spades 3, hearts 2,
  diamonds 1, clubs 0).  \<open>sorted\<close> on a freshly constructed deck returns its 52 cards
  rearranged so that their keys ascend (they are 0, 1, ..., 51); the first card of the
  result is the 2 of clubs and the last is the ace of spades.
\<close>

theorem FrenchDeck_sorted_correct:
  "(list_index ranks r = Inr i \<and> map_of suit_values s = Some v
      \<longrightarrow> sorting (Card r s) = Inr (i * 4 + v))
   \<and> map_of suit_values =
       [''spades'' \<mapsto> 3, ''hearts'' \<mapsto> 2, ''diamonds'' \<mapsto> 1, ''clubs'' \<mapsto> 0]
   \<and> (\<exists>ys. FrenchDeck_sorted FrenchDeck_init = Inr ys
          \<and> length ys = 52
          \<and> mset ys = mset (cards FrenchDeck_init)
          \<and> map sorting ys = map Inr [0..51]
          \<and> sorted [0..51::int]
          \<and> hd ys = Card ''2'' ''clubs''
          \<and> last ys = Card ''A'' ''spades'')"
proof -
  have key: "list_index ranks r = Inr i \<and> map_of suit_values s = Some v
      \<longrightarrow> sorting (Card r s) = Inr (i * 4 + v)"
    by (simp add: sorting_def dict_getitem_def suit_values_def)
  have tbl: "map_of suit_values =
       [''spades'' \<mapsto> 3, ''hearts'' \<mapsto> 2, ''diamonds'' \<mapsto> 1, ''clubs'' \<mapsto> 0]"
    by (auto simp: suit_values_def fun_eq_iff)
  from fresh_deck_sorted_shape obtain ys
    where ys: "FrenchDeck_sorted FrenchDeck_init = Inr ys"
      and shape: "length ys = 52" "map sorting ys = map Inr [0..51]"
        "hd ys = Card ''2'' ''clubs''" "last ys = Card ''A'' ''spades''"
    by (auto split: sum.splits)
  from ys have "mset ys = mset (cards FrenchDeck_init)"
    unfolding FrenchDeck_sorted_eq by (rule sorted_by_key_mset)
  with ys shape key tbl show ?thesis
    by simp
qed

theorem FrenchDeck_sorted_correct_witness:
  "list_index ranks ''A'' = Inr 12 \<and> map_of suit_values ''spades'' = Some 3
   \<and> sorting (Card ''A'' ''spades'') = Inr 51
   \<and> (\<exists>ys. FrenchDeck_sorted FrenchDeck_init = Inr ys
          \<and> map sorting ys = map Inr [0..51]
          \<and> hd ys = Card ''2'' ''clubs''
          \<and> last ys = Card ''A'' ''spades'')"
proof -
  have r: "list_index ranks ''A'' = Inr 12"
    by (simp add: ranks_eq)
  have s: "map_of suit_values ''spades'' = Some 3"
    by (simp add: suit_values_def)
  from r s FrenchDeck_sorted_correct [of "''A''" 12 "''spades''" 3] show ?thesis
    by auto
qed

subsection \<open>factorial\<close>

lemma factorial_small: "n < 2 \<Longrightarrow> factorial n = 1"
  by (subst factorial.simps) simp

lemma factorial_step: "\<not> n < 2 \<Longrightarrow> factorial n = n * factorial (n - 1)"
  by (subst factorial.simps) simp

lemma factorial_fact: "0 \<le> n \<Longrightarrow> factorial n = fact (nat n)"
proof (induction n rule: factorial.induct)
  case (1 n)
  show ?case
  proof (cases "n < 2")
    case True
    with 1(2) have "n = 0 \<or> n = 1" by arith
    then show ?thesis
      using True by (auto simp: factorial_small)
  next
    case False
    then have n: "nat n = Suc (nat (n - 1))" by simp
    from False 1 have "factorial (n - 1) = fact (nat (n - 1))" by simp
    with False show ?thesis
      by (simp add: factorial_step n)
  qed
qed

lemma factorial_within_enough: "factorial_within (Suc (nat (n - 1))) n = Some (factorial n)"
proof (induction n rule: factorial.induct)
  case (1 n)
  show ?case
  proof (cases "n < 2")
    case True
    then show ?thesis by (simp add: factorial_small)
  next
    case False
    then have d: "nat (n - 1) = Suc (nat (n - 1 - 1))" by simp
    from False 1 have "factorial_within (Suc (nat (n - 1 - 1))) (n - 1) = Some (factorial (n - 1))"
      by simp
    with False show ?thesis
      by (simp add: d factorial_step)
  qed
qed

lemma fact_prod_int: "0 \<le> n \<Longrightarrow> (fact (nat n) :: int) = \<Prod>{1..n}"
proof -
  assume "0 \<le> n"
  have "(fact (nat n) :: int) = int (\<Prod>{1..nat n})"
    by (simp add: fact_prod)
  also have "\<dots> = (\<Prod>k\<in>{1..nat n}. int k)"
    by simp
  also have "\<dots> = \<Prod>(int ` {1..nat n})"
    by (simp add: prod.reindex)
  also have "int ` {1..nat n} = {1..n}"
    using \<open>0 \<le> n\<close> by (simp add: image_int_atLeastAtMost)
  finally show ?thesis .
qed


text \<open>
  C5.  For every integer \<open>n \<ge> 0\<close>, \<open>factorial n\<close> is \<open>n!\<close>, the product of the integers
  from 1 to \<open>n\<close> (1 when \<open>n = 0\<close>); it satisfies the recursion of the source, and
  \<open>factorial 42\<close> is the number the test expects.
\<close>

theorem factorial_correct:
  "(0 \<le> n \<longrightarrow> factorial n = fact (nat n) \<and> factorial n = \<Prod>{1..n})
   \<and> factorial n = (if n < 2 then 1 else n * factorial (n - 1))
   \<and> factorial 0 = 1
   \<and> factorial 42 = 1405006117752879898543142606244511569936384000000000"
proof -
  have a: "0 \<le> n \<longrightarrow> factorial n = fact (nat n) \<and> factorial n = \<Prod>{1..n}"
    using factorial_fact [of n] fact_prod_int [of n] by simp
  have b: "factorial n = (if n < 2 then 1 else n * factorial (n - 1))"
    by (rule factorial.simps)
  have c: "factorial 0 = 1"
    by (rule factorial_small) simp
  have d: "factorial 42 = 1405006117752879898543142606244511569936384000000000"
    using factorial_fact [of 42] by (simp add: fact_numeral)
  from a b c d show ?thesis
    by blast
qed

theorem factorial_correct_witness:
  "(0::int) \<le> 5 \<and> factorial 5 = 120 \<and> factorial 5 = \<Prod>{1..5::int}"
proof -
  have "fact (nat 5) = (120::int)"
    by (simp add: fact_numeral)
  with factorial_correct [of 5] show ?thesis
    by simp
qed

text \<open>
  C9.  \<open>factorial\<close> returns on every integer: a call with \<open>n < 2\<close>, negative or not,
  returns 1 at once, without a nested call, and any other call needs \<open>n - 1\<close> nested
  calls.
\<close>

theorem factorial_total:
  "(n < 2 \<longrightarrow> factorial n = 1 \<and> factorial_within 1 n = Some 1)
   \<and> factorial_within (Suc (nat (n - 1))) n = Some (factorial n)"
proof -
  have a: "n < 2 \<longrightarrow> factorial n = 1 \<and> factorial_within 1 n = Some 1"
    by (simp add: factorial_small)
  have b: "factorial_within (Suc (nat (n - 1))) n = Some (factorial n)"
    by (rule factorial_within_enough)
  from a b show ?thesis
    by blast
qed

theorem factorial_total_witness:
  "(-3::int) < 2 \<and> factorial (-3) = 1 \<and> factorial_within 1 (-3) = Some 1
   \<and> factorial_within (Suc (nat (-3 - 1))) (-3) = Some (factorial (-3))"
  using factorial_total [of "-3"] by simp

subsection \<open>BingoCage\<close>

lemma shuffle_from_mset: "i < length x \<Longrightarrow> mset (shuffle_from rnd i x) = mset x"
proof (induction i arbitrary: x)
  case 0
  then show ?case by simp
next
  case (Suc i)
  have "rnd (Suc i + 1) mod (Suc i + 1) < Suc i + 1"
    by (rule mod_less_divisor) simp
  with Suc.prems have j: "randbelow rnd (Suc i + 1) < length x"
    unfolding randbelow_def by linarith
  then have "mset (swap x (Suc i) (randbelow rnd (Suc i + 1))) = mset x"
    using Suc.prems by (simp add: swap_def mset_swap)
  moreover have "i < length (swap x (Suc i) (randbelow rnd (Suc i + 1)))"
    using Suc.prems by (simp add: swap_def)
  ultimately show ?case
    using Suc.IH by simp
qed

lemma shuffle_mset: "mset (shuffle rnd x) = mset x"
proof (cases x)
  case Nil
  then show ?thesis by (simp add: shuffle_def)
next
  case (Cons a as)
  then show ?thesis by (simp add: shuffle_def shuffle_from_mset)
qed

lemma pick_nonempty:
  "items c \<noteq> [] \<Longrightarrow> pick c = Inr (last (items c), c\<lparr>items := butlast (items c)\<rparr>)"
  by (simp add: pick_def list_pop_def)

lemma pick_empty:
  "items c = [] \<Longrightarrow> pick c = Inl (LookupError ''pick from empty BingoCage'')"
  by (simp add: pick_def list_pop_def)

lemma pick_Inr:
  assumes "pick c = Inr (item, c')"
  shows "items c \<noteq> [] \<and> item = last (items c) \<and> items c' = butlast (items c)"
proof (cases "items c = []")
  case True
  with assms show ?thesis by (simp add: pick_empty)
next
  case False
  with assms show ?thesis by (auto simp: pick_nonempty)
qed

lemma cage_of_subset:
  "cage_of its c \<Longrightarrow> set (items c) \<subseteq> set its"
proof (induction rule: cage_of.induct)
  case (constructed its rnd)
  have "set (shuffle rnd its) = set its"
    using shuffle_mset [of rnd its] by (rule mset_eq_setD)
  then show ?case by (simp add: BingoCage_init_def)
next
  case (picked its c item c')
  from pick_Inr [OF picked.hyps(2)] have "items c' = butlast (items c)" by simp
  with picked.IH show ?case
    by (auto dest: in_set_butlastD)
qed

text \<open>
  C2.  Popping the empty list raises \<open>IndexError\<close>, and \<open>pick\<close> on an empty cage raises
  \<open>LookupError('pick from empty BingoCage')\<close> in its place.  On a non-empty cage that
  was built from \<open>its\<close> (possibly after earlier picks), \<open>pick\<close> raises nothing: it returns
  an item of \<open>its\<close>, the last one of the cage's list, and removes it.
\<close>

theorem BingoCage_pick:
  "list_pop (items \<lparr>items = []\<rparr>) = Inl IndexError
   \<and> pick \<lparr>items = []\<rparr> = Inl (LookupError ''pick from empty BingoCage'')
   \<and> (items c = [] \<longrightarrow> pick c = Inl (LookupError ''pick from empty BingoCage''))
   \<and> (cage_of its c \<and> items c \<noteq> [] \<longrightarrow>
        (\<exists>item c'. pick c = Inr (item, c') \<and> item \<in> set its
           \<and> item = last (items c) \<and> items c' = butlast (items c)))"
proof -
  have "last (items c) \<in> set its" if "cage_of its c" "items c \<noteq> []"
    using cage_of_subset [OF that(1)] last_in_set [OF that(2)] by blast
  then show ?thesis
    by (auto simp: pick_nonempty pick_empty list_pop_def)
qed

theorem BingoCage_pick_witness:
  "cage_of [0, 1, 2] (BingoCage_init (\<lambda>n. 0) [0, 1, 2])
   \<and> items (BingoCage_init (\<lambda>n. 0) [0, 1, 2]) = [1, 2, 0]
   \<and> (\<exists>c'. pick (BingoCage_init (\<lambda>n. 0) [0, 1, 2]) = Inr (0, c') \<and> items c' = [1, 2])
   \<and> items \<lparr>items = []\<rparr> = []
   \<and> pick \<lparr>items = []\<rparr> = Inl (LookupError ''pick from empty BingoCage'')"
proof -
  have s: "shuffle (\<lambda>n. 0) [0, 1, 2 :: int] = [1, 2, 0]"
    by code_simp
  have c: "cage_of [0, 1, 2] (BingoCage_init (\<lambda>n. 0) [0, 1, 2])"
    by (rule cage_of.constructed)
  have i: "items (BingoCage_init (\<lambda>n. 0) [0, 1, 2]) = [1, 2, 0]"
    by (simp add: BingoCage_init_def s)
  from BingoCage_pick [of "BingoCage_init (\<lambda>n. 0) [0, 1, 2]" "[0, 1, 2]"] c i
  have "\<exists>c'. pick (BingoCage_init (\<lambda>n. 0) [0, 1, 2]) = Inr (0, c') \<and> items c' = [1, 2]"
    by auto
  with c i BingoCage_pick [of "\<lparr>items = []\<rparr>" "[]"] show ?thesis
    by simp
qed


subsection \<open>tag\<close>

lemma sorted_fst_of_sorted:
  fixes ps :: "('a::linorder \<times> 'b::linorder) list"
  assumes "sorted ps"
  shows "sorted (map fst ps)"
proof -
  have "sorted_wrt (\<lambda>p q. fst p \<le> fst q) ps"
    using assms by (rule sorted_wrt_mono_rel [rotated]) (auto simp: less_eq_prod_def)
  then show ?thesis
    by (simp add: sorted_map)
qed

lemma sort_items_by_key:
  fixes al :: "('a::linorder \<times> 'b::linorder) list"
  assumes "distinct (map fst al)"
  shows "sort al = map (\<lambda>k. (k, the (map_of al k))) (sorted_list_of_set (dom (map_of al)))"
proof -
  let ?L = "sort al"
  have "mset (map fst ?L) = mset (map fst al)"
    by simp
  then have d: "distinct (map fst ?L)"
    using assms by (metis mset_eq_imp_distinct_iff)
  have s: "sorted (map fst ?L)"
    by (rule sorted_fst_of_sorted) simp
  have st: "set (map fst ?L) = dom (map_of al)"
    by (simp add: dom_map_of_conv_image_fst)
  have fin: "finite (dom (map_of al))"
    by (rule finite_dom_map_of)
  have keys: "map fst ?L = sorted_list_of_set (dom (map_of al))"
    using s d st fin by (intro sorted_distinct_set_unique) simp_all
  have "map_of al (fst p) = Some (snd p)" if "p \<in> set ?L" for p
    using map_of_is_SomeI [OF assms, of "fst p" "snd p"] that by simp
  then have "map (\<lambda>p. (fst p, the (map_of al (fst p)))) ?L = ?L"
    by (intro map_idI) simp
  then have "?L = map (\<lambda>k. (k, the (map_of al k))) (map fst ?L)"
    by (simp add: comp_def)
  with keys show ?thesis
    by simp
qed

lemma attr_str_spec:
  assumes "distinct (map fst al)"
  shows "concat (map format_attr (sort al)) = spec_attr_text (map_of al)"
  by (simp add: sort_items_by_key [OF assms] spec_attr_text_def format_attr_def comp_def)

lemma update_spec_attributes:
  "map_of (case cls of None \<Rightarrow> al | Some c \<Rightarrow> AList.update ''class'' c al) =
     spec_attributes cls (map_of al)"
  by (cases cls) (simp_all add: spec_attributes_def AList.update_conv')

lemma update_distinct:
  "distinct (map fst al) \<Longrightarrow>
     distinct (map fst (case cls of None \<Rightarrow> al | Some c \<Rightarrow> AList.update ''class'' c al))"
  by (cases cls) (simp_all add: AList.distinct_update)

text \<open>
  C6.  \<open>tag\<close> computes what its specification says: without content the one
  self-closing string \<open><name ATTRS />\<close>, with content one \<open><name ATTRS>c</name>\<close> for each
  content string, joined by newlines, where \<open>ATTRS\<close> lists every attribute as
  \<open> key="value"\<close> in ascending order of the keys and \<open>cls\<close>, when given, is the attribute
  \<open>class\<close>.  The keys of a dictionary are distinct.
\<close>

theorem tag_refines_spec:
  assumes "distinct (map fst attrs)"
  shows "tag name content cls attrs = tag_spec name content cls (map_of attrs)"
proof -
  let ?al = "case cls of None \<Rightarrow> attrs | Some c \<Rightarrow> AList.update ''class'' c attrs"
  have a: "(if ?al \<noteq> [] then concat (map format_attr (sort ?al)) else []) =
             spec_attr_text (spec_attributes cls (map_of attrs))"
    using attr_str_spec [OF update_distinct [OF assms, of cls]]
    by (auto simp: update_spec_attributes spec_attr_text_def)
  show ?thesis
    unfolding tag_def tag_spec_def Let_def a
    by (simp add: format_element_def [abs_def] format_empty_def)
qed

theorem tag_refines_spec_witness:
  \<open>distinct (map fst [(''title'', ''Sunset Boulevard''), (''src'', ''sunset.jpg'')])
   \<and> tag_spec ''img'' [] (Some ''framed'')
        (map_of [(''title'', ''Sunset Boulevard''), (''src'', ''sunset.jpg'')]) =
       ''<img class="framed" src="sunset.jpg" title="Sunset Boulevard" />''
   \<and> distinct (map fst ([] :: (string \<times> string) list))
   \<and> tag_spec ''p'' [''hello'', ''world''] (Some ''sidebar'') (map_of []) =
       ''<p class="sidebar">hello</p>'' @ [CHR 0x0A] @ ''<p class="sidebar">world</p>''\<close>
proof -
  have d1: "distinct (map fst [(''title'', ''Sunset Boulevard''), (''src'', ''sunset.jpg'')])"
    by simp
  have d2: "distinct (map fst ([] :: (string \<times> string) list))"
    by simp
  have t1: \<open>tag ''img'' [] (Some ''framed'')
        [(''title'', ''Sunset Boulevard''), (''src'', ''sunset.jpg'')] =
       ''<img class="framed" src="sunset.jpg" title="Sunset Boulevard" />''\<close>
    by code_simp
  have t2: \<open>tag ''p'' [''hello'', ''world''] (Some ''sidebar'') [] =
       ''<p class="sidebar">hello</p>'' @ [CHR 0x0A] @ ''<p class="sidebar">world</p>''\<close>
    by code_simp
  from t1 have s1: \<open>tag_spec ''img'' [] (Some ''framed'')
        (map_of [(''title'', ''Sunset Boulevard''), (''src'', ''sunset.jpg'')]) =
       ''<img class="framed" src="sunset.jpg" title="Sunset Boulevard" />''\<close>
    by (simp only: tag_refines_spec [OF d1])
  from t2 have s2: \<open>tag_spec ''p'' [''hello'', ''world''] (Some ''sidebar'') (map_of []) =
       ''<p class="sidebar">hello</p>'' @ [CHR 0x0A] @ ''<p class="sidebar">world</p>''\<close>
    by (simp only: tag_refines_spec [OF d2])
  from d1 s1 d2 s2 show ?thesis
    by (intro conjI)
qed

subsection \<open>Vectors\<close>

text \<open>
  C4.  Adding two vectors adds their components, and multiplying a vector by a scalar
  multiplies both components by it.
\<close>

theorem Vector_add_mul:
  "Vector_add (Vector a b) (Vector c d) = Vector (a + c) (b + d)
   \<and> Vector_mul (Vector a b) k = Vector (a * k) (b * k)"
  by (simp add: Vector_add_def Vector_mul_def)

text \<open>
  C10.  A vector is falsy exactly when both of its components are zero; every other
  vector is truthy.
\<close>

theorem Vector_bool_iff:
  "(\<not> Vector_bool (Vector x y)) = (x = 0 \<and> y = 0)"
  by (simp add: Vector_bool_def py_bool_def py_or_def)

subsection \<open>What can change an object\<close>














end
